theory Spec2Isabelle
  imports Complex_Main
begin

section \<open>Clip compositor arithmetic (create_segment_video)\<close>

text \<open>
  Python floats are modelled as exact reals: the claims about shot counts, shot durations and
  transition offsets are claims about the arithmetic the code writes down, and rounding of
  IEEE doubles is left out of the model.
\<close>

definition MIN_CLIP_DURATION :: real where "MIN_CLIP_DURATION = 3"
definition MAX_CLIP_DURATION :: real where "MAX_CLIP_DURATION = 5"
definition CROSSFADE_DURATION :: real where "CROSSFADE_DURATION = 1 / 2"

text \<open>Python's \<^verbatim>\<open>int(x)\<close> on a float truncates towards zero.\<close>

definition py_int :: "real \<Rightarrow> int" where
  "py_int x = (if 0 \<le> x then \<lfloor>x\<rfloor> else \<lceil>x\<rceil>)"

text \<open>\<^verbatim>\<open>num_clips = max(2, int(audio_duration / MAX_CLIP_DURATION) + 1)\<close>\<close>

definition num_clips :: "real \<Rightarrow> int" where
  "num_clips audio_duration = max 2 (py_int (audio_duration / MAX_CLIP_DURATION) + 1)"

text \<open>\<^verbatim>\<open>clip_duration = audio_duration / num_clips\<close>\<close>

definition clip_duration :: "real \<Rightarrow> real" where
  "clip_duration audio_duration = audio_duration / real_of_int (num_clips audio_duration)"

text \<open>
  \<^verbatim>\<open>this_duration = clip_duration if clip_idx < num_clips - 1
                   else audio_duration - clip_idx * clip_duration\<close>
\<close>

definition this_duration :: "real \<Rightarrow> nat \<Rightarrow> real" where
  "this_duration audio_duration clip_idx =
     (if int clip_idx < num_clips audio_duration - 1 then clip_duration audio_duration
      else audio_duration - real clip_idx * clip_duration audio_duration)"

text \<open>
  The two gathering loops of create_segment_video (YouTube clips, then images) share one body:
  stop once \<^verbatim>\<open>len(clip_files) >= num_clips\<close>, compute \<^verbatim>\<open>this_duration\<close> from the
  current length of \<^verbatim>\<open>clip_files\<close>, and append the clip only when download and rendering
  succeed. A clip file is represented by the duration it was rendered with; the list of
  booleans says, candidate by candidate, whether download and rendering succeeded.
\<close>

fun gather_clips :: "real \<Rightarrow> bool list \<Rightarrow> real list \<Rightarrow> real list" where
  "gather_clips audio_duration [] clip_files = clip_files"
| "gather_clips audio_duration (ok # oks) clip_files =
     (if num_clips audio_duration \<le> int (length clip_files) then clip_files
      else if ok
        then gather_clips audio_duration oks
               (clip_files @ [this_duration audio_duration (length clip_files)])
        else gather_clips audio_duration oks clip_files)"

text \<open>
  The YouTube loop runs only for a YOUTUBE_CLIP decision (the flag), the image loop only while
  \<^verbatim>\<open>len(clip_files) < num_clips\<close>.
\<close>

definition plan_clips :: "real \<Rightarrow> bool \<Rightarrow> bool list \<Rightarrow> bool list \<Rightarrow> real list" where
  "plan_clips audio_duration is_youtube yt_oks img_oks =
     (let clip_files = (if is_youtube then gather_clips audio_duration yt_oks [] else [])
      in if int (length clip_files) < num_clips audio_duration
         then gather_clips audio_duration img_oks clip_files
         else clip_files)"

text \<open>\<^verbatim>\<open>xfade_duration = min(CROSSFADE_DURATION, clip_duration / 4)\<close>\<close>

definition xfade_duration :: "real \<Rightarrow> real" where
  "xfade_duration audio_duration = min CROSSFADE_DURATION (clip_duration audio_duration / 4)"

text \<open>
  The xfade chain: the first offset is \<^verbatim>\<open>clip_duration - xfade_duration\<close>; for every further
  clip index \<^verbatim>\<open>i in range(2, len(clip_files))\<close> the running offset grows by the same amount.
  The function returns the offsets written into the filter, in order.
\<close>

fun xfade_chain :: "real \<Rightarrow> real \<Rightarrow> nat list \<Rightarrow> real list" where
  "xfade_chain step current_offset [] = []"
| "xfade_chain step current_offset (i # is) =
     (current_offset + step) # xfade_chain step (current_offset + step) is"

definition xfade_offsets :: "real \<Rightarrow> nat \<Rightarrow> real list" where
  "xfade_offsets audio_duration n_clip_files =
     (let step = clip_duration audio_duration - xfade_duration audio_duration
      in if n_clip_files = 2 then [step]
         else step # xfade_chain step step [2..<n_clip_files])"


section \<open>Strings\<close>

text \<open>
  A Python string is modelled as a list of characters whose code points lie below 256.
  \<^verbatim>\<open>str.lower()\<close> maps \<open>A\<close>..\<open>Z\<close> to \<open>a\<close>..\<open>z\<close> and the upper-case letters
  \<open>0xC0\<close>..\<open>0xDE\<close> (without the multiplication sign \<open>0xD7\<close>) to the letters 32 positions
  further on; it leaves every other character alone.
\<close>

definition ascii_uppercase :: string where
  "ascii_uppercase = ''ABCDEFGHIJKLMNOPQRSTUVWXYZ''"

definition ascii_lowercase :: string where
  "ascii_lowercase = ''abcdefghijklmnopqrstuvwxyz''"

definition latin1_uppercase :: string where
  "latin1_uppercase = [
      CHR 0xC0, CHR 0xC1, CHR 0xC2, CHR 0xC3, CHR 0xC4, CHR 0xC5, CHR 0xC6, CHR 0xC7,
      CHR 0xC8, CHR 0xC9, CHR 0xCA, CHR 0xCB, CHR 0xCC, CHR 0xCD, CHR 0xCE, CHR 0xCF,
      CHR 0xD0, CHR 0xD1, CHR 0xD2, CHR 0xD3, CHR 0xD4, CHR 0xD5, CHR 0xD6, CHR 0xD8,
      CHR 0xD9, CHR 0xDA, CHR 0xDB, CHR 0xDC, CHR 0xDD, CHR 0xDE]"

definition latin1_lowercase :: string where
  "latin1_lowercase = [
      CHR 0xE0, CHR 0xE1, CHR 0xE2, CHR 0xE3, CHR 0xE4, CHR 0xE5, CHR 0xE6, CHR 0xE7,
      CHR 0xE8, CHR 0xE9, CHR 0xEA, CHR 0xEB, CHR 0xEC, CHR 0xED, CHR 0xEE, CHR 0xEF,
      CHR 0xF0, CHR 0xF1, CHR 0xF2, CHR 0xF3, CHR 0xF4, CHR 0xF5, CHR 0xF6, CHR 0xF8,
      CHR 0xF9, CHR 0xFA, CHR 0xFB, CHR 0xFC, CHR 0xFD, CHR 0xFE]"

definition lower_char :: "char \<Rightarrow> char" where
  "lower_char c =
     (case map_of (zip (ascii_uppercase @ latin1_uppercase)
                       (ascii_lowercase @ latin1_lowercase)) c of
        Some l \<Rightarrow> l
      | None \<Rightarrow> c)"

definition lower :: "string \<Rightarrow> string" where
  "lower s = map lower_char s"

text \<open>\<^verbatim>\<open>s.startswith(p)\<close>\<close>

fun startswith :: "string \<Rightarrow> string \<Rightarrow> bool" where
  "startswith s [] = True"
| "startswith [] (p # ps) = False"
| "startswith (c # cs) (p # ps) = (c = p \<and> startswith cs ps)"

text \<open>\<^verbatim>\<open>kw in s\<close>: \<open>kw\<close> occurs in \<open>s\<close> as a contiguous substring.\<close>

fun contains :: "string \<Rightarrow> string \<Rightarrow> bool" where
  "contains [] kw = (kw = [])"
| "contains (c # cs) kw = (startswith (c # cs) kw \<or> contains cs kw)"

text \<open>\<^verbatim>\<open>any(kw in s for kw in kws)\<close>\<close>

definition any_in :: "string list \<Rightarrow> string \<Rightarrow> bool" where
  "any_in kws s = list_ex (contains s) kws"

text \<open>Truthiness of an optional string: \<^verbatim>\<open>None\<close> and \<^verbatim>\<open>""\<close> are false.\<close>

fun truthy :: "string option \<Rightarrow> bool" where
  "truthy None = False"
| "truthy (Some s) = (s \<noteq> [])"

definition dquote :: char where "dquote = CHR 0x22"

section \<open>Regular expressions (re.search)\<close>

text \<open>
  The fragment of Python's \<^verbatim>\<open>re\<close> that detect_quote uses: literals, the character classes
  \<^verbatim>\<open>[A-Z]\<close>, \<^verbatim>\<open>[a-z]\<close> and \<^verbatim>\<open>[^"]\<close>, greedy repetition of a class with a lower bound
  (\<^verbatim>\<open>+\<close> is "at least 1", \<^verbatim>\<open>{20,}\<close> is "at least 20"), sequence, alternation and one
  capturing group. The matcher is a backtracking matcher: it lists every way the pattern can
  match at the start of the input, in the order in which \<^verbatim>\<open>re\<close> tries them (greedy
  repetitions longest first, alternatives left to right), each with the content of group 1
  and the input that is left.
\<close>

datatype cclass = Upper | Lower | NotDQuote

fun in_class :: "cclass \<Rightarrow> char \<Rightarrow> bool" where
  "in_class Upper c = (c \<in> set ascii_uppercase)"
| "in_class Lower c = (c \<in> set ascii_lowercase)"
| "in_class NotDQuote c = (c \<noteq> dquote)"

datatype regex =
    Lit string
  | Cls cclass
  | AtLeast nat cclass
  | Seq regex regex
  | Alt regex regex
  | Group regex

text \<open>The inputs left after a greedy run of class characters, longest run first.\<close>

fun greedy :: "cclass \<Rightarrow> string \<Rightarrow> string list" where
  "greedy k [] = [[]]"
| "greedy k (c # cs) = (if in_class k c then greedy k cs @ [c # cs] else [c # cs])"

fun rmatch :: "regex \<Rightarrow> string \<Rightarrow> (string option \<times> string) list" where
  "rmatch (Lit l) s = (if startswith s l then [(None, drop (length l) s)] else [])"
| "rmatch (Cls k) s =
     (case s of [] \<Rightarrow> [] | c # cs \<Rightarrow> if in_class k c then [(None, cs)] else [])"
| "rmatch (AtLeast n k) s =
     map (\<lambda>rest. (None, rest)) (filter (\<lambda>rest. n \<le> length s - length rest) (greedy k s))"
| "rmatch (Seq r1 r2) s =
     concat (map (\<lambda>(g1, rest1).
                    map (\<lambda>(g2, rest2). (case g2 of None \<Rightarrow> g1 | Some g \<Rightarrow> Some g, rest2))
                        (rmatch r2 rest1))
                 (rmatch r1 s))"
| "rmatch (Alt r1 r2) s = rmatch r1 s @ rmatch r2 s"
| "rmatch (Group r) s =
     map (\<lambda>(g, rest). (Some (take (length s - length rest) s), rest)) (rmatch r s)"

text \<open>
  \<^verbatim>\<open>re.search(pattern, text)\<close>: the first match at the leftmost position that has one.
  The result is \<^verbatim>\<open>None\<close> or a match object, represented by its \<^verbatim>\<open>group(1)\<close>.
\<close>

fun re_search :: "regex \<Rightarrow> string \<Rightarrow> string option option" where
  "re_search r [] = (case rmatch r [] of [] \<Rightarrow> None | (g, rest) # _ \<Rightarrow> Some g)"
| "re_search r (c # cs) =
     (case rmatch r (c # cs) of [] \<Rightarrow> re_search r cs | (g, rest) # _ \<Rightarrow> Some g)"

text \<open>Alternation of literals, \<^verbatim>\<open>(?:a|b|c)\<close>.\<close>

fun alts :: "string \<Rightarrow> string list \<Rightarrow> regex" where
  "alts w [] = Lit w"
| "alts w (v # vs) = Alt (Lit w) (alts v vs)"

section \<open>Visual routing (image_video_assembler.py)\<close>

datatype VisualType = F1_IMAGE | TALKING_HEAD | YOUTUBE_CLIP | QUOTE_OVERLAY | VEO3_VIDEO

record VisualDecision =
  primary_type :: VisualType
  fallback_type :: VisualType
  search_queries :: "string list"
  speaker_name :: "string option"
  quote_text :: "string option"
  veo3_prompt :: "string option"
  confidence :: real

subsection \<open>Knowledge base\<close>

text \<open>Dictionaries are association lists: Python iterates a dict in insertion order.\<close>

definition F1_DRIVERS :: "(string \<times> string) list" where
  "F1_DRIVERS =
    [(''verstappen'', ''Max Verstappen''), (''hamilton'', ''Lewis Hamilton''),
     (''leclerc'', ''Charles Leclerc''), (''norris'', ''Lando Norris''),
     (''sainz'', ''Carlos Sainz''), (''russell'', ''George Russell''),
     (''perez'', ''Sergio Perez''), (''alonso'', ''Fernando Alonso''),
     (''stroll'', ''Lance Stroll''), (''ocon'', ''Esteban Ocon''),
     (''gasly'', ''Pierre Gasly''), (''tsunoda'', ''Yuki Tsunoda''),
     (''ricciardo'', ''Daniel Ricciardo''), (''bottas'', ''Valtteri Bottas''),
     (''piastri'', ''Oscar Piastri''), (''lawson'', ''Liam Lawson''),
     (''antonelli'', ''Kimi Antonelli''), (''bearman'', ''Oliver Bearman''),
     (''schumacher'', ''Michael Schumacher''), (''senna'', ''Ayrton Senna''),
     (''vettel'', ''Sebastian Vettel''), (''raikkonen'', ''Kimi Raikkonen''),
     (''wolff'', ''Toto Wolff''), (''horner'', ''Christian Horner''),
     (''binotto'', ''Mattia Binotto''), (''brown'', ''Zak Brown''),
     (''newey'', ''Adrian Newey''), (''brawn'', ''Ross Brawn'')]"

definition F1_TEAMS :: "(string \<times> string) list" where
  "F1_TEAMS =
    [(''red bull'', ''Red Bull Racing''), (''mercedes'', ''Mercedes F1''),
     (''ferrari'', ''Scuderia Ferrari''), (''mclaren'', ''McLaren F1''),
     (''aston martin'', ''Aston Martin F1''), (''alpine'', ''Alpine F1''),
     (''williams'', ''Williams Racing''), (''haas'', ''Haas F1''),
     (''sauber'', ''Sauber F1''), (''rb'', ''RB F1 Team'')]"

definition FUEL_PARTNERS :: "(string \<times> string) list" where
  "FUEL_PARTNERS =
    [(''aramco'', ''Saudi Aramco''), (''shell'', ''Shell''),
     (''petronas'', ''Petronas''), (''mobil'', ''ExxonMobil''),
     (''castrol'', ''Castrol''), (''bp'', ''BP''), (''gulf'', ''Gulf Oil'')]"

definition CONCEPT_KEYWORDS :: "string list" where
  "CONCEPT_KEYWORDS =
    [''how'', ''why'', ''explain'', ''concept'', ''basically'', ''essentially'',
     ''fundamentally'', ''process'', ''mechanism'', ''chemistry'', ''physics'',
     ''engineering'', ''fischer-tropsch'', ''syngas'', ''catalyst'', ''molecule'',
     ''carbon capture'', ''efficiency'', ''thermal'', ''combustion'',
     ''compression ratio'', ''power unit'', ''mgu-h'', ''mgu-k'', ''hybrid'']"

definition ACTION_KEYWORDS :: "string list" where
  "ACTION_KEYWORDS =
    [''race'', ''racing'', ''overtake'', ''crash'', ''pit stop'', ''start'',
     ''finish'', ''podium'', ''celebration'', ''onboard'', ''battle'',
     ''wheel to wheel'', ''championship'', ''victory'', ''dramatic'']"

definition VEO3_KEYWORDS :: "string list" where
  "VEO3_KEYWORDS =
    [''future'', ''vision'', ''imagine'', ''revolution'', ''transformation'',
     ''evolution'', ''innovation'', ''breakthrough'', ''paradigm'', ''frontier'',
     ''molecular'', ''atomic'', ''chemical reaction'', ''synthesis'',
     ''production facility'', ''industrial'', ''manufacturing'',
     ''wind tunnel'', ''aerodynamic'', ''simulation'']"

text \<open>The prompt templates of \<^verbatim>\<open>VEO3_PROMPTS\<close>, one constant per key.\<close>

definition VEO3_PROMPT_fuel_production :: string where
  "VEO3_PROMPT_fuel_production = ''Industrial fuel production facility with advanced chemistry equipment, glowing reactors, sustainable energy, futuristic laboratory''"

definition VEO3_PROMPT_carbon_capture :: string where
  "VEO3_PROMPT_carbon_capture = ''Carbon capture technology visualization, CO2 molecules being absorbed, green industrial facility, environmental technology''"

definition VEO3_PROMPT_engine_tech :: string where
  "VEO3_PROMPT_engine_tech = ''Formula 1 power unit internal visualization, turbo spinning, energy flow through MGU-K, high-tech engineering''"

definition VEO3_PROMPT_wind_tunnel :: string where
  "VEO3_PROMPT_wind_tunnel = ''F1 car in wind tunnel, smoke particles flowing over aerodynamic bodywork, technical testing facility''"

definition VEO3_PROMPT_chemistry :: string where
  "VEO3_PROMPT_chemistry = ''Chemical synthesis process visualization, molecular bonds forming, laboratory equipment, scientific innovation''"

definition VEO3_PROMPT_factory :: string where
  "VEO3_PROMPT_factory = ''High-tech F1 factory floor, carbon fiber components being manufactured, robotic precision, clean room environment''"

definition VEO3_PROMPT_data_analysis :: string where
  "VEO3_PROMPT_data_analysis = ''F1 data analysis visualization, telemetry streams, holographic displays, race strategy simulation''"

definition VEO3_PROMPT_sustainable :: string where
  "VEO3_PROMPT_sustainable = ''Sustainable energy technology, green fuel production, environmental innovation, clean energy future''"

subsection \<open>detect_quote\<close>

text \<open>\<^verbatim>\<open>r'"([^"]{20,})"'\<close>\<close>

definition quote_pattern :: regex where
  "quote_pattern = Seq (Lit [dquote]) (Seq (Group (AtLeast 20 NotDQuote)) (Lit [dquote]))"

text \<open>\<^verbatim>\<open>[A-Z][a-z]+ [A-Z][a-z]+\<close>\<close>

definition two_names :: regex where
  "two_names =
     Seq (Cls Upper) (Seq (AtLeast 1 Lower) (Seq (Lit '' '') (Seq (Cls Upper) (AtLeast 1 Lower))))"

text \<open>
  \<^verbatim>\<open>r"([A-Z][a-z]+ [A-Z][a-z]+) (?:said|stated|explained|mentioned|noted)"\<close>,
  \<^verbatim>\<open>r"(?:said|stated|explained) ([A-Z][a-z]+ [A-Z][a-z]+)"\<close>,
  \<^verbatim>\<open>r"as ([A-Z][a-z]+ [A-Z][a-z]+) (?:put it|noted|explained)"\<close>,
  \<^verbatim>\<open>r"according to ([A-Z][a-z]+ [A-Z][a-z]+)"\<close>
\<close>

definition speaker_patterns :: "regex list" where
  "speaker_patterns =
    [Seq (Group two_names)
         (Seq (Lit '' '') (alts ''said'' [''stated'', ''explained'', ''mentioned'', ''noted''])),
     Seq (alts ''said'' [''stated'', ''explained'']) (Seq (Lit '' '') (Group two_names)),
     Seq (Lit ''as '')
         (Seq (Group two_names) (Seq (Lit '' '') (alts ''put it'' [''noted'', ''explained'']))),
     Seq (Lit ''according to '') (Group two_names)]"

text \<open>
  \<^verbatim>\<open>for pattern in speaker_patterns: match = re.search(pattern, text);
  if match: speaker = match.group(1); break\<close>
\<close>

fun speaker_loop :: "regex list \<Rightarrow> string \<Rightarrow> string option" where
  "speaker_loop [] text = None"
| "speaker_loop (pattern # patterns) text =
     (case re_search pattern text of
        Some g \<Rightarrow> g
      | None \<Rightarrow> speaker_loop patterns text)"

text \<open>
  \<^verbatim>\<open>for key, name in F1_DRIVERS.items():
      if key in text_lower and any(w in text_lower for w in [...]): speaker = name; break\<close>
\<close>

fun known_figure_loop ::
  "(string \<times> string) list \<Rightarrow> string \<Rightarrow> string option \<Rightarrow> string option" where
  "known_figure_loop [] text_lower speaker = speaker"
| "known_figure_loop ((key, name) # rest) text_lower speaker =
     (if contains text_lower key
         \<and> any_in [''said'', ''stated'', ''explained'', ''according''] text_lower
      then Some name
      else known_figure_loop rest text_lower speaker)"

text \<open>The result is the pair \<^verbatim>\<open>(speaker, quote)\<close>.\<close>

definition detect_quote :: "string \<Rightarrow> string option \<times> string option" where
  "detect_quote text =
     (let quote = (case re_search quote_pattern text of Some g \<Rightarrow> g | None \<Rightarrow> None);
          speaker = speaker_loop speaker_patterns text;
          speaker = (if \<not> truthy speaker
                     then known_figure_loop F1_DRIVERS (lower text) speaker
                     else speaker)
      in (speaker, quote))"

subsection \<open>detect_f1_entities\<close>

record entities =
  drivers :: "string list"
  teams :: "string list"
  fuel_partners :: "string list"

text \<open>
  \<^verbatim>\<open>for key, name in TABLE.items(): if key in text_lower: entities[...].append(name)\<close>
\<close>

definition matched_names :: "(string \<times> string) list \<Rightarrow> string \<Rightarrow> string list" where
  "matched_names table text_lower =
     map snd (filter (\<lambda>(key, name). contains text_lower key) table)"

definition detect_f1_entities :: "string \<Rightarrow> entities" where
  "detect_f1_entities text =
     (let text_lower = lower text
      in \<lparr>drivers = matched_names F1_DRIVERS text_lower,
          teams = matched_names F1_TEAMS text_lower,
          fuel_partners = matched_names FUEL_PARTNERS text_lower\<rparr>)"

subsection \<open>get_veo3_prompt\<close>

definition get_veo3_prompt :: "string \<Rightarrow> string \<Rightarrow> string option" where
  "get_veo3_prompt text context =
     (let text_lower = lower (text @ '' '' @ context)
      in if any_in [''fuel production'', ''sustainable fuel'', ''synthetic fuel''] text_lower
           then Some VEO3_PROMPT_fuel_production
         else if any_in [''carbon capture'', ''co2'', ''carbon dioxide''] text_lower
           then Some VEO3_PROMPT_carbon_capture
         else if any_in [''power unit'', ''engine'', ''mgu'', ''turbo''] text_lower
           then Some VEO3_PROMPT_engine_tech
         else if any_in [''wind tunnel'', ''aerodynamic'', ''downforce''] text_lower
           then Some VEO3_PROMPT_wind_tunnel
         else if any_in [''chemistry'', ''chemical'', ''molecule'', ''synthesis'',
                         ''fischer-tropsch''] text_lower
           then Some VEO3_PROMPT_chemistry
         else if any_in [''factory'', ''manufacturing'', ''production''] text_lower
           then Some VEO3_PROMPT_factory
         else if any_in [''data'', ''telemetry'', ''analysis'', ''strategy''] text_lower
           then Some VEO3_PROMPT_data_analysis
         else if any_in [''sustainable'', ''green'', ''environment'', ''future''] text_lower
           then Some VEO3_PROMPT_sustainable
         else None)"

subsection \<open>route_visual\<close>

text \<open>
  A segment is a dictionary from keys to strings; \<^verbatim>\<open>segment.get(key, "")\<close> reads it with
  the empty string as default.
\<close>

type_synonym segment = "string \<rightharpoonup> string"

definition segment_get :: "segment \<Rightarrow> string \<Rightarrow> string \<Rightarrow> string" where
  "segment_get seg key dflt = (case seg key of Some v \<Rightarrow> v | None \<Rightarrow> dflt)"

text \<open>\<^verbatim>\<open>xs or ys\<close> on lists: \<open>xs\<close> unless it is empty.\<close>

definition list_or :: "'a list \<Rightarrow> 'a list \<Rightarrow> 'a list" where
  "list_or xs ys = (if xs \<noteq> [] then xs else ys)"

text \<open>How an f-string prints an optional string.\<close>

fun fmt :: "string option \<Rightarrow> string" where
  "fmt None = ''None''"
| "fmt (Some s) = s"

text \<open>
  The source tests \<^verbatim>\<open>use_veo3 and is_veo3_suitable and not has_f1_content\<close> and then, nested,
  \<^verbatim>\<open>if veo3_prompt\<close>; when the inner test fails control falls through to the next rule, so
  the two tests are one conjunction here.
\<close>

definition route_visual :: "segment \<Rightarrow> bool \<Rightarrow> VisualDecision" where
  "route_visual seg use_veo3 =
     (let text = segment_get seg ''text'' [];
          context = segment_get seg ''context'' [];
          footage_query = segment_get seg ''footage_query'' [];
          combined_text = text @ '' '' @ context @ '' '' @ footage_query;
          text_lower = lower combined_text;
          (speaker, quote) = detect_quote text
      in if truthy speaker \<and> truthy quote then
           \<lparr>primary_type = QUOTE_OVERLAY, fallback_type = F1_IMAGE,
            search_queries = [fmt speaker @ '' F1'', fmt speaker @ '' portrait''],
            speaker_name = speaker, quote_text = quote, veo3_prompt = None,
            confidence = 95 / 100\<rparr>
         else
           let ents = detect_f1_entities combined_text;
               search_queries =
                 map (\<lambda>driver. driver @ '' F1 2024'') (take 2 (drivers ents))
                 @ map (\<lambda>team. team @ '' F1 car'') (take 2 (teams ents))
                 @ map (\<lambda>partner. partner @ '' F1'') (take 1 (fuel_partners ents));
               search_queries =
                 (if footage_query \<noteq> [] \<and> \<not> startswith footage_query ''GRAPHIC:''
                  then search_queries @ [footage_query] else search_queries);
               has_f1_content =
                 (drivers ents \<noteq> [] \<or> teams ents \<noteq> [] \<or> fuel_partners ents \<noteq> []);
               is_concept = any_in CONCEPT_KEYWORDS text_lower;
               is_action = any_in ACTION_KEYWORDS text_lower;
               is_veo3_suitable = any_in VEO3_KEYWORDS text_lower
           in if use_veo3 \<and> is_veo3_suitable \<and> \<not> has_f1_content
                 \<and> truthy (get_veo3_prompt text context) then
                \<lparr>primary_type = VEO3_VIDEO, fallback_type = TALKING_HEAD,
                 search_queries = list_or search_queries [''F1 technology''],
                 speaker_name = None, quote_text = None,
                 veo3_prompt = get_veo3_prompt text context, confidence = 85 / 100\<rparr>
              else if is_action \<and> has_f1_content then
                \<lparr>primary_type = YOUTUBE_CLIP, fallback_type = F1_IMAGE,
                 search_queries = list_or search_queries [''F1 '' @ context],
                 speaker_name = None, quote_text = None, veo3_prompt = None,
                 confidence = 85 / 100\<rparr>
              else if has_f1_content \<and> \<not> is_concept then
                \<lparr>primary_type = F1_IMAGE, fallback_type = TALKING_HEAD,
                 search_queries = list_or search_queries [''F1 '' @ context],
                 speaker_name = None, quote_text = None, veo3_prompt = None,
                 confidence = 9 / 10\<rparr>
              else if is_concept then
                let veo3_prompt = (if use_veo3 then get_veo3_prompt text context else None)
                in \<lparr>primary_type = TALKING_HEAD,
                    fallback_type = (if truthy veo3_prompt then VEO3_VIDEO else F1_IMAGE),
                    search_queries =
                      list_or search_queries [''F1 technology'', ''motorsport engineering''],
                    speaker_name = None, quote_text = None, veo3_prompt = veo3_prompt,
                    confidence = 8 / 10\<rparr>
              else
                \<lparr>primary_type = F1_IMAGE, fallback_type = TALKING_HEAD,
                 search_queries = list_or search_queries [''Formula 1 racing'', ''F1 car''],
                 speaker_name = None, quote_text = None, veo3_prompt = None,
                 confidence = 6 / 10\<rparr>)"

subsection \<open>Measures on patterns\<close>

text \<open>
  The least number of characters a pattern consumes, and the property that every capturing
  group of a pattern consumes at least \<open>n\<close> characters.
\<close>

fun min_len :: "regex \<Rightarrow> nat" where
  "min_len (Lit l) = length l"
| "min_len (Cls k) = 1"
| "min_len (AtLeast n k) = n"
| "min_len (Seq r1 r2) = min_len r1 + min_len r2"
| "min_len (Alt r1 r2) = min (min_len r1) (min_len r2)"
| "min_len (Group r) = min_len r"

fun groups_at_least :: "nat \<Rightarrow> regex \<Rightarrow> bool" where
  "groups_at_least n (Lit l) = True"
| "groups_at_least n (Cls k) = True"
| "groups_at_least n (AtLeast m k) = True"
| "groups_at_least n (Seq r1 r2) = (groups_at_least n r1 \<and> groups_at_least n r2)"
| "groups_at_least n (Alt r1 r2) = (groups_at_least n r1 \<and> groups_at_least n r2)"
| "groups_at_least n (Group r) = (n \<le> min_len r)"

subsection \<open>Example segment\<close>

text \<open>The text \<^verbatim>\<open>"We pushed the car to its limit," said Lewis Hamilton.\<close>\<close>

definition hamilton_quote_text :: string where
  "hamilton_quote_text =
     dquote # ''We pushed the car to its limit,'' @ dquote # '' said Lewis Hamilton.''"

subsection \<open>Quoted spans of a text\<close>

text \<open>
  The reference notion for quote detection: the runs of characters other than \<^verbatim>\<open>"\<close> that
  lie between two consecutive \<^verbatim>\<open>"\<close> characters of the text, from left to right.
  \<open>spans_after\<close> reads the text that follows a \<^verbatim>\<open>"\<close>.
\<close>

function spans_after :: "string \<Rightarrow> string list" where
  "spans_after r =
     (case dropWhile (\<lambda>c. c \<noteq> dquote) r of
        [] \<Rightarrow> []
      | q # r' \<Rightarrow> takeWhile (\<lambda>c. c \<noteq> dquote) r # spans_after r')"
  by pat_completeness auto
termination
proof (relation "measure length")
  show "wf (measure length)" by simp
next
  fix r :: string and q r'
  assume "dropWhile (\<lambda>c. c \<noteq> dquote) r = q # r'"
  then have "length (q # r') \<le> length r"
    by (metis length_dropWhile_le)
  then show "(r', r) \<in> measure length" by simp
qed

definition quoted_spans :: "string \<Rightarrow> string list" where
  "quoted_spans text =
     (case dropWhile (\<lambda>c. c \<noteq> dquote) text of [] \<Rightarrow> [] | q # r \<Rightarrow> spans_after r)"

text \<open>A text with two quoted spans, the second longer than the first.\<close>

definition two_quotes_text :: string where
  "two_quotes_text =
     dquote # ''The tyres were gone by lap ten,'' @ dquote # '' said Hamilton. ''
     @ dquote # ''We knew it would be a long afternoon for everybody,'' @ dquote # '' he added.''"

section \<open>Footage search (footage_downloader.py)\<close>

definition OFFICIAL_CHANNELS :: "string list" where
  "OFFICIAL_CHANNELS =
    [''FORMULA 1'', ''Formula 1'', ''F1'', ''Sky Sports F1'', ''Red Bull Racing'',
     ''Mercedes-AMG PETRONAS F1 Team'', ''Scuderia Ferrari'', ''McLaren'',
     ''Aston Martin Aramco F1 Team'', ''BWT Alpine F1 Team'', ''Williams Racing'']"

definition GOOD_KEYWORDS :: "string list" where
  "GOOD_KEYWORDS =
    [''highlights'', ''onboard'', ''race edit'', ''best moments'',
     ''compilation'', ''season review'', ''battle'', ''overtake'',
     ''pit stop'', ''start'', ''finish'', ''podium'', ''top 10'',
     ''pole lap'', ''fastest lap'', ''crash'', ''incident'',
     ''qualifying'', ''sprint'', ''team radio'']"

definition BAD_KEYWORDS :: "string list" where
  "BAD_KEYWORDS =
    [''interview'', ''press conference'', ''reaction'', ''reacts'',
     ''podcast'', ''explained'', ''breakdown'', ''analysis'',
     ''vlog'', ''behind the scenes'', ''documentary'', ''full race'',
     ''live stream'', ''watch along'', ''my thoughts'', ''opinion'',
     ''review'', ''preview'', ''prediction'']"

subsection \<open>score_result\<close>

text \<open>
  \<^verbatim>\<open>for official in OFFICIAL_CHANNELS:
      if official.lower() in channel_lower: score += 0.25; break\<close>
\<close>

fun official_loop :: "string list \<Rightarrow> string \<Rightarrow> real \<Rightarrow> real" where
  "official_loop [] channel_lower score = score"
| "official_loop (official # rest) channel_lower score =
     (if contains channel_lower (lower official) then score + 25 / 100
      else official_loop rest channel_lower score)"

text \<open>\<^verbatim>\<open>for good in GOOD_KEYWORDS: if good in title_lower: score += 0.08\<close>\<close>

fun good_loop :: "string list \<Rightarrow> string \<Rightarrow> real \<Rightarrow> real" where
  "good_loop [] title_lower score = score"
| "good_loop (good # rest) title_lower score =
     good_loop rest title_lower (if contains title_lower good then score + 8 / 100 else score)"

text \<open>\<^verbatim>\<open>for bad in BAD_KEYWORDS: if bad in title_lower: score -= 0.25\<close>\<close>

fun bad_loop :: "string list \<Rightarrow> string \<Rightarrow> real \<Rightarrow> real" where
  "bad_loop [] title_lower score = score"
| "bad_loop (bad # rest) title_lower score =
     bad_loop rest title_lower (if contains title_lower bad then score - 25 / 100 else score)"

text \<open>The value of \<^verbatim>\<open>score\<close> after the three loops, before it is clamped.\<close>

definition raw_score :: "string \<Rightarrow> string \<Rightarrow> real" where
  "raw_score title channel =
     (let title_lower = lower title;
          channel_lower = lower channel;
          score = 5 / 10;
          score = official_loop OFFICIAL_CHANNELS channel_lower score;
          score = good_loop GOOD_KEYWORDS title_lower score;
          score = bad_loop BAD_KEYWORDS title_lower score
      in score)"

text \<open>\<^verbatim>\<open>return max(0, min(1, score))\<close>\<close>

definition score_result :: "string \<Rightarrow> string \<Rightarrow> real" where
  "score_result title channel = max 0 (min 1 (raw_score title channel))"

subsection \<open>search_youtube_enhanced\<close>

text \<open>Exceptions are values; a function that can raise returns \<open>py_error + 'a\<close>.\<close>

datatype py_error = FileNotFoundError | OSError | UnicodeDecodeError

text \<open>
  \<^verbatim>\<open>str.strip()\<close> removes leading and trailing whitespace. The whitespace characters
  below 256 are tab, line feed, vertical tab, form feed, carriage return, the four
  separators \<open>0x1C\<close>..\<open>0x1F\<close>, space, next line (\<open>0x85\<close>) and no-break space (\<open>0xA0\<close>).
\<close>

definition isspace :: "char \<Rightarrow> bool" where
  "isspace c = (c \<in> set [CHR 0x09, CHR 0x0A, CHR 0x0B, CHR 0x0C, CHR 0x0D,
                            CHR 0x1C, CHR 0x1D, CHR 0x1E, CHR 0x1F, CHR 0x20,
                            CHR 0x85, CHR 0xA0])"

definition strip :: "string \<Rightarrow> string" where
  "strip s = rev (dropWhile isspace (rev (dropWhile isspace s)))"

text \<open>
  \<^verbatim>\<open>s.split(sep)\<close> for a non-empty separator: \<open>py_split sep [] s\<close>. The second argument is
  the piece read so far. (Python raises ValueError for an empty separator; the code never
  passes one, and the model then returns the string unsplit.)
\<close>

function py_split :: "string \<Rightarrow> string \<Rightarrow> string \<Rightarrow> string list" where
  "py_split sep cur [] = [cur]"
| "py_split sep cur (c # cs) =
     (if sep \<noteq> [] \<and> startswith (c # cs) sep
      then cur # py_split sep [] (drop (length sep) (c # cs))
      else py_split sep (cur @ [c]) cs)"
  by pat_completeness auto
termination
  by (relation "measure (\<lambda>(sep, cur, s). length s)") auto

text \<open>The dictionary of one search result; the fields are its keys, prefixed.\<close>

record video =
  v_title :: string
  v_id :: string
  v_channel :: string
  v_duration :: string
  v_score :: real
  v_is_official :: bool

text \<open>
  One iteration of the loop over the lines of \<^verbatim>\<open>result.stdout\<close>: \<open>None\<close> when the line is
  skipped (\<^verbatim>\<open>continue\<close>, fewer than four parts, or a score below 0.2), otherwise the
  dictionary appended to \<^verbatim>\<open>videos\<close>.
\<close>

definition parse_line :: "string \<Rightarrow> video option" where
  "parse_line line =
     (if \<not> contains line ''|||'' then None
      else let parts = py_split ''|||'' [] line
           in if 4 \<le> length parts then
                let quality_score = score_result (parts ! 0) (parts ! 2)
                in if quality_score < 2 / 10 then None
                   else Some \<lparr>v_title = parts ! 0, v_id = parts ! 1, v_channel = parts ! 2,
                              v_duration = parts ! 3, v_score = quality_score,
                              v_is_official =
                                list_ex (\<lambda>off. contains (lower (parts ! 2)) (lower off))
                                        OFFICIAL_CHANNELS\<rparr>
              else None)"

text \<open>
  search_youtube_enhanced has no exception handler. Its only input from outside is the
  result of \<^verbatim>\<open>subprocess.run\<close>: an exception (for instance when yt-dlp is not installed)
  or the text the process printed. \<^verbatim>\<open>videos.sort(key=score, reverse=True)\<close> is a stable
  sort by descending score.
\<close>

definition search_youtube_enhanced :: "py_error + string \<Rightarrow> py_error + video list" where
  "search_youtube_enhanced run_result =
     (case run_result of
        Inl e \<Rightarrow> Inl e
      | Inr stdout \<Rightarrow>
          let videos = List.map_filter parse_line (py_split [CHR 0x0A] [] (strip stdout))
          in Inr (sort_key (\<lambda>v. - v_score v) videos))"

section \<open>Image search backends (image_video_assembler.py)\<close>

definition API_RATE_LIMIT_DELAY :: real where "API_RATE_LIMIT_DELAY = 5 / 10"

text \<open>\<^verbatim>\<open>str(n)\<close> for an integer, as the f-string of the cache key prints it.\<close>

fun str_nat :: "nat \<Rightarrow> string" where
  "str_nat n =
     (if n < 10 then [''0123456789'' ! n]
      else str_nat (n div 10) @ [''0123456789'' ! (n mod 10)])"

definition str_int :: "int \<Rightarrow> string" where
  "str_int i = (if i < 0 then ''-'' @ str_nat (nat (- i)) else str_nat (nat i))"

text \<open>
  The module globals \<^verbatim>\<open>_IMAGE_CACHE\<close> and \<^verbatim>\<open>_LAST_API_CALL\<close>. There is one
  \<^verbatim>\<open>_LAST_API_CALL\<close> for the whole module.
\<close>

record api_state =
  image_cache :: "string \<rightharpoonup> string list"
  last_api_call :: real

text \<open>
  What the outside world contributes to one call: the credential file of the backend (its
  content, if the file exists), the environment variable with the key, the reading of
  \<^verbatim>\<open>time.time()\<close> at the rate-limit check, and the outcome of the HTTP request.
\<close>

datatype http_response =
    Failure
  | Photos "string option list"

text \<open>
  \<open>Failure\<close>: \<^verbatim>\<open>urlopen\<close>, \<^verbatim>\<open>read\<close>, \<^verbatim>\<open>decode\<close>, \<^verbatim>\<open>json.loads\<close> or \<^verbatim>\<open>data.get\<close> raises.
  \<open>Photos\<close>: the list \<^verbatim>\<open>data.get("photos", [])\<close> (for Unsplash \<^verbatim>\<open>"results"\<close>), each entry
  with the URL that \<^verbatim>\<open>photo["src"]["large2x"]\<close> (for Unsplash \<^verbatim>\<open>photo["urls"]["regular"]\<close>)
  yields, or \<open>None\<close> when that lookup raises.
\<close>

record call_env =
  creds_file :: "string option"
  env_key :: "string option"
  clock :: real
  response :: http_response

text \<open>
  \<^verbatim>\<open>if os.path.exists(creds_path): return f.read().strip()\<close>, else the environment
  variable.
\<close>

definition get_api_key :: "string option \<Rightarrow> string option \<Rightarrow> string option" where
  "get_api_key creds env_var =
     (case creds of Some content \<Rightarrow> Some (strip content) | None \<Rightarrow> env_var)"

text \<open>
  \<^verbatim>\<open>for photo in ...: urls.append(photo[...][...])\<close>. The flag says whether the loop ran to
  its end; when a lookup raises, \<^verbatim>\<open>urls\<close> keeps what was appended before.
\<close>

fun collect_urls :: "string option list \<Rightarrow> string list \<Rightarrow> string list \<times> bool" where
  "collect_urls [] urls = (urls, True)"
| "collect_urls (None # rest) urls = (urls, False)"
| "collect_urls (Some u # rest) urls = collect_urls rest (urls @ [u])"

text \<open>
  What a call does: the list it returns, the number of HTTP requests it issued, the time it
  slept, and the globals afterwards.
\<close>

record search_outcome =
  urls :: "string list"
  requests :: nat
  slept :: real
  state :: api_state

text \<open>
  search_images_pexels and search_images_unsplash have the same body; they differ in the
  prefix of the cache key, in the credential they load, in the URL and in the JSON fields
  they read. The timestamp that \<^verbatim>\<open>_LAST_API_CALL = time.time()\<close> stores is the reading at the
  rate-limit check plus the time slept. Everything from building the request to storing the
  cache entry is inside \<^verbatim>\<open>try: ... except Exception: pass\<close>.
\<close>

definition search_images_backend ::
  "string \<Rightarrow> string \<Rightarrow> int \<Rightarrow> call_env \<Rightarrow> api_state \<Rightarrow> search_outcome" where
  "search_images_backend prefix query num_images env st =
     (let cache_key = prefix @ ''_'' @ query @ ''_'' @ str_int num_images
      in case image_cache st cache_key of
           Some cached \<Rightarrow> \<lparr>urls = cached, requests = 0, slept = 0, state = st\<rparr>
         | None \<Rightarrow>
             let api_key = get_api_key (creds_file env) (env_key env)
             in if \<not> truthy api_key
                then \<lparr>urls = [], requests = 0, slept = 0, state = st\<rparr>
                else
                  let elapsed = clock env - last_api_call st;
                      pause = (if elapsed < API_RATE_LIMIT_DELAY
                               then API_RATE_LIMIT_DELAY - elapsed else 0);
                      st1 = st\<lparr>last_api_call := clock env + pause\<rparr>
                  in case response env of
                       Failure \<Rightarrow> \<lparr>urls = [], requests = 1, slept = pause, state = st1\<rparr>
                     | Photos entries \<Rightarrow>
                         (case collect_urls entries [] of
                            (found, True) \<Rightarrow>
                              \<lparr>urls = found, requests = 1, slept = pause,
                               state = st1\<lparr>image_cache := (image_cache st1)(cache_key \<mapsto> found)\<rparr>\<rparr>
                          | (found, False) \<Rightarrow>
                              \<lparr>urls = found, requests = 1, slept = pause, state = st1\<rparr>))"

definition search_images_pexels ::
  "string \<Rightarrow> int \<Rightarrow> call_env \<Rightarrow> api_state \<Rightarrow> search_outcome" where
  "search_images_pexels = search_images_backend ''pexels''"

definition search_images_unsplash ::
  "string \<Rightarrow> int \<Rightarrow> call_env \<Rightarrow> api_state \<Rightarrow> search_outcome" where
  "search_images_unsplash = search_images_backend ''unsplash''"

text \<open>The globals when the module is loaded.\<close>

definition initial_state :: api_state where
  "initial_state = \<lparr>image_cache = Map.empty, last_api_call = 0\<rparr>"

subsection \<open>Example environments\<close>

definition env_pexels :: call_env where
  "env_pexels = \<lparr>creds_file = Some ''key'', env_key = None, clock = 100, response = Photos []\<rparr>"

definition env_unsplash :: call_env where
  "env_unsplash = \<lparr>creds_file = Some ''key'', env_key = None, clock = 1001 / 10, response = Photos []\<rparr>"

definition env_partial :: call_env where
  "env_partial = \<lparr>creds_file = Some ''key'', env_key = None, clock = 100,
                   response = Photos [Some ''https://images.example/1.jpg'', None]\<rparr>"

definition env_no_key :: call_env where
  "env_no_key = \<lparr>creds_file = None, env_key = None, clock = 100,
                  response = Photos [Some ''https://images.example/1.jpg'']\<rparr>"

section \<open>Properties of the clip compositor\<close>

lemma num_clips_ge2: "2 \<le> num_clips d"
  by (simp add: num_clips_def)

lemma num_clips_floor: "num_clips d = max 2 (\<lfloor>d / MAX_CLIP_DURATION\<rfloor> + 1)"
  unfolding num_clips_def py_int_def MAX_CLIP_DURATION_def
  by (auto simp: max_def) (linarith+)?

lemma num_clips_ge3_pos:
  assumes "3 \<le> num_clips d" shows "10 \<le> d"
proof -
  have "2 \<le> py_int (d / 5)"
    using assms by (simp add: num_clips_def MAX_CLIP_DURATION_def max_def split: if_splits)
  then have "2 \<le> d / 5"
    by (auto simp: py_int_def split: if_splits) (linarith+)?
  then show ?thesis by simp
qed

lemma num_clips_mult_le:
  assumes "0 \<le> d" shows "(real_of_int (num_clips d) - 1) * clip_duration d \<le> d"
proof -
  have n: "0 < real_of_int (num_clips d)" using num_clips_ge2 [of d] by linarith
  have c: "0 \<le> clip_duration d" using assms n by (simp add: clip_duration_def)
  have "real_of_int (num_clips d) * clip_duration d = d"
    using n by (simp add: clip_duration_def)
  then show ?thesis using c by (simp add: algebra_simps)
qed

text \<open>
  C2 as stated fails: at a duration that is a multiple of the maximum shot length, such as
  10 seconds, the code plans 3 shots where \<open>max(2, ceil(d / 5))\<close> is 2.
\<close>

theorem num_clips_ceiling_counterexample:
  "num_clips 10 = 3 \<and> max 2 \<lceil>(10::real) / MAX_CLIP_DURATION\<rceil> = 2"
  by (simp add: num_clips_def py_int_def MAX_CLIP_DURATION_def)

text \<open>
  C2 (amended): the number of shots planned for a target duration \<open>d\<close> is
  \<open>max(2, floor(d / 5) + 1)\<close>; it equals \<open>max(2, ceil(d / 5))\<close> whenever \<open>d / 5\<close> is not a
  whole number or \<open>d < 10\<close>. For \<open>d = 13\<close> the plan has 3 shots of \<open>13 / 3\<close> seconds each.
\<close>

theorem num_clips_floor_plus_one:
  "num_clips d = max 2 (\<lfloor>d / MAX_CLIP_DURATION\<rfloor> + 1)
   \<and> (real_of_int \<lfloor>d / MAX_CLIP_DURATION\<rfloor> \<noteq> d / MAX_CLIP_DURATION \<or> d < 10
        \<longrightarrow> num_clips d = max 2 \<lceil>d / MAX_CLIP_DURATION\<rceil>)
   \<and> num_clips 13 = 3 \<and> clip_duration 13 = 13 / 3
   \<and> plan_clips 13 False [] [True, True, True] = [13 / 3, 13 / 3, 13 / 3]"
proof (intro conjI impI)
  show "num_clips d = max 2 (\<lfloor>d / MAX_CLIP_DURATION\<rfloor> + 1)" by (rule num_clips_floor)
next
  assume h: "real_of_int \<lfloor>d / MAX_CLIP_DURATION\<rfloor> \<noteq> d / MAX_CLIP_DURATION \<or> d < 10"
  show "num_clips d = max 2 \<lceil>d / MAX_CLIP_DURATION\<rceil>"
  proof (cases "d / MAX_CLIP_DURATION = real_of_int \<lfloor>d / MAX_CLIP_DURATION\<rfloor>")
    case False
    then have "\<lceil>d / MAX_CLIP_DURATION\<rceil> = \<lfloor>d / MAX_CLIP_DURATION\<rfloor> + 1"
      by (simp only: ceiling_altdef if_False)
    then show ?thesis by (simp add: num_clips_floor)
  next
    case True
    with h have lt: "d < 10" by argo
    from True have "\<lceil>d / MAX_CLIP_DURATION\<rceil> = \<lfloor>d / MAX_CLIP_DURATION\<rfloor>"
      by (metis ceiling_of_int)
    moreover have "\<lfloor>d / MAX_CLIP_DURATION\<rfloor> < 2"
      using lt by (simp add: MAX_CLIP_DURATION_def floor_less_iff)
    ultimately show ?thesis unfolding num_clips_floor by linarith
  qed
next
  show n13: "num_clips 13 = 3"
    by (simp add: num_clips_def py_int_def MAX_CLIP_DURATION_def)
  then show "clip_duration 13 = 13 / 3" by (simp add: clip_duration_def)
  show "plan_clips 13 False [] [True, True, True] = [13 / 3, 13 / 3, 13 / 3]"
    by (simp add: plan_clips_def this_duration_def clip_duration_def n13)
qed

theorem num_clips_floor_plus_one_witness:
  "real_of_int \<lfloor>(13::real) / MAX_CLIP_DURATION\<rfloor> \<noteq> 13 / MAX_CLIP_DURATION
   \<and> num_clips 13 = max 2 \<lceil>(13::real) / MAX_CLIP_DURATION\<rceil>"
proof -
  have h: "real_of_int \<lfloor>(13::real) / MAX_CLIP_DURATION\<rfloor> \<noteq> 13 / MAX_CLIP_DURATION"
    by (simp add: MAX_CLIP_DURATION_def)
  with num_clips_floor_plus_one [of 13] show ?thesis by blast
qed

subsection \<open>Shot durations\<close>












subsection \<open>Crossfade offsets\<close>

lemma xfade_chain_lower: "0 < step \<Longrightarrow> x \<in> set (xfade_chain step cur is) \<Longrightarrow> cur < x"
  by (induction "is" arbitrary: cur) fastforce+

lemma xfade_chain_sorted: "0 < step \<Longrightarrow> sorted_wrt (<) (xfade_chain step cur is)"
  by (induction "is" arbitrary: cur) (auto dest: xfade_chain_lower)

lemma xfade_chain_last:
  "last (x # xfade_chain step cur is)
   = (if is = [] then x else cur + real (length is) * step)"
  by (induction "is" arbitrary: x cur) (auto simp: algebra_simps)

lemma xfade_offsets_last:
  assumes "2 \<le> n"
  shows "last (xfade_offsets d n) = real (n - 1) * (clip_duration d - xfade_duration d)"
proof (cases "n = 2")
  case True
  then show ?thesis by (simp add: xfade_offsets_def)
next
  case False
  then have ne: "[2..<n] \<noteq> []" and len: "real (length [2..<n]) = real (n - 1) - 1"
    using assms by (auto simp: of_nat_diff)
  show ?thesis
    using False ne len
    by (simp only: xfade_offsets_def Let_def xfade_chain_last if_False)
       (simp add: algebra_simps)
qed

lemma xfade_step_pos:
  assumes "0 < d" shows "0 < clip_duration d - xfade_duration d"
proof -
  have "0 < real_of_int (num_clips d)" using num_clips_ge2 [of d] by linarith
  then have "0 < clip_duration d" using assms by (simp add: clip_duration_def)
  then show ?thesis by (simp add: xfade_duration_def min_def)
qed

lemma xfade_chain_closed:
  "xfade_chain step cur is = map (\<lambda>k. cur + real (Suc k) * step) [0..<length is]"
proof (induction "is" arbitrary: cur)
  case Nil
  then show ?case by simp
next
  case (Cons i "is")
  have "map (\<lambda>k. cur + real (Suc k) * step) [0..<Suc (length is)]
        = (cur + step) # map (\<lambda>k. cur + step + real (Suc k) * step) [0..<length is]"
    by (simp add: upt_conv_Cons map_Suc_upt [symmetric] algebra_simps del: upt_Suc)
  then show ?case using Cons.IH [of "cur + step"] by simp
qed

lemma xfade_offsets_closed:
  assumes "2 \<le> n"
  shows "xfade_offsets d n
         = map (\<lambda>k. real (Suc k) * (clip_duration d - xfade_duration d)) [0..<n - 1]"
proof (cases "n = 2")
  case True
  then show ?thesis by (simp add: xfade_offsets_def)
next
  case False
  then obtain m where m: "n = Suc (Suc (Suc m))"
    using assms by (metis Suc_le_D le_antisym not_less_eq_eq numeral_2_eq_2)
  have "map (\<lambda>k. real (Suc k) * s) [0..<Suc (Suc m)]
        = s # map (\<lambda>k. s + real (Suc k) * s) [0..<Suc m]" for s :: real
    by (simp add: upt_conv_Cons map_Suc_upt [symmetric] algebra_simps del: upt_Suc)
  then show ?thesis
    using False m by (simp add: xfade_offsets_def Let_def xfade_chain_closed del: upt_Suc)
qed

text \<open>
  C7: for \<open>n \<ge> 2\<close> clips out of the planned \<open>num_clips\<close>, joined by crossfades of duration
  \<open>min(0.5, clip_duration / 4)\<close>, the offsets of the xfade chain are
  \<open>clip_duration - xfade_duration\<close> for the first transition and the previous offset plus the
  same amount for each further one (the \<open>k\<close>-th offset is \<open>(k + 1)\<close> times that amount);
  they are strictly increasing, and for a target duration \<open>d \<ge> 0\<close> the last offset plus
  the transition duration does not exceed \<open>d\<close>.
\<close>

theorem xfade_offsets_increasing_and_bounded:
  assumes "2 \<le> n" and "int n \<le> num_clips d"
  shows "xfade_offsets d n
           = map (\<lambda>k. real (Suc k) * (clip_duration d - xfade_duration d)) [0..<n - 1]
       \<and> sorted_wrt (<) (xfade_offsets d n)
       \<and> (0 \<le> d \<longrightarrow> last (xfade_offsets d n) + xfade_duration d \<le> d)"
proof (intro conjI)
  show "xfade_offsets d n
           = map (\<lambda>k. real (Suc k) * (clip_duration d - xfade_duration d)) [0..<n - 1]"
    using assms(1) by (rule xfade_offsets_closed)
next
  show "sorted_wrt (<) (xfade_offsets d n)"
  proof (cases "n = 2")
    case True
    then show ?thesis by (simp add: xfade_offsets_def)
  next
    case False
    then have "3 \<le> num_clips d" using assms by linarith
    then have "0 < d" using num_clips_ge3_pos [of d] by linarith
    then have s: "0 < clip_duration d - xfade_duration d" by (rule xfade_step_pos)
    show ?thesis
      using False xfade_chain_sorted [OF s] xfade_chain_lower [OF s]
      by (auto simp: xfade_offsets_def Let_def)
  qed
next
  show "0 \<le> d \<longrightarrow> last (xfade_offsets d n) + xfade_duration d \<le> d"
  proof
    assume d: "0 \<le> d"
    have npos: "0 < real_of_int (num_clips d)" using num_clips_ge2 [of d] by linarith
    have c: "0 \<le> clip_duration d" using d npos by (simp add: clip_duration_def)
    have x: "0 \<le> xfade_duration d"
      using c by (simp add: xfade_duration_def CROSSFADE_DURATION_def)
    have n1: "real (n - 1) \<le> real_of_int (num_clips d) - 1"
      using assms by (simp add: of_nat_diff)
    have n1': "1 \<le> real (n - 1)" using assms by simp
    have "last (xfade_offsets d n) + xfade_duration d
          = real (n - 1) * clip_duration d - (real (n - 1) - 1) * xfade_duration d"
      using xfade_offsets_last [OF assms(1)] by (simp add: algebra_simps)
    also have "\<dots> \<le> real (n - 1) * clip_duration d"
      using x n1' by (simp add: mult_nonneg_nonneg)
    also have "\<dots> \<le> (real_of_int (num_clips d) - 1) * clip_duration d"
      using n1 c by (rule mult_right_mono)
    also have "\<dots> \<le> d" using d by (rule num_clips_mult_le)
    finally show "last (xfade_offsets d n) + xfade_duration d \<le> d" .
  qed
qed

theorem xfade_offsets_increasing_and_bounded_witness:
  "(2::nat) \<le> 3 \<and> int 3 \<le> num_clips 13 \<and> (0::real) \<le> 13
   \<and> xfade_offsets 13 3 = [23 / 6, 23 / 3]
   \<and> sorted_wrt (<) (xfade_offsets 13 3)
   \<and> last (xfade_offsets 13 3) + xfade_duration 13 \<le> 13"
proof -
  have n13: "num_clips 13 = 3"
    by (simp add: num_clips_def py_int_def MAX_CLIP_DURATION_def)
  have h1: "(2::nat) \<le> 3" by simp
  have h2: "int 3 \<le> num_clips 13" by (simp add: n13)
  have v: "xfade_offsets 13 3 = [23 / 6, 23 / 3]"
    by (simp add: xfade_offsets_def clip_duration_def xfade_duration_def n13
        CROSSFADE_DURATION_def upt_conv_Cons)
  from xfade_offsets_increasing_and_bounded [OF h1 h2]
  have s: "sorted_wrt (<) (xfade_offsets 13 3)"
    and b: "(0::real) \<le> 13 \<longrightarrow> last (xfade_offsets 13 3) + xfade_duration 13 \<le> 13"
    by blast+
  from b have "last (xfade_offsets 13 3) + xfade_duration 13 \<le> 13" by simp
  with s h1 h2 v show ?thesis by (intro conjI) simp_all
qed

section \<open>Properties of quote detection and visual routing\<close>

subsection \<open>Lengths of matches and captures\<close>

lemma startswith_length: "startswith s l \<Longrightarrow> length l \<le> length s"
  by (induction s l rule: startswith.induct) auto

lemma greedy_length: "rest \<in> set (greedy k s) \<Longrightarrow> length rest \<le> length s"
  by (induction s) (auto split: if_splits)

lemma rmatch_length:
  "(g, rest) \<in> set (rmatch r s) \<Longrightarrow> length rest + min_len r \<le> length s"
proof (induction r arbitrary: g rest s)
  case (Lit l)
  then show ?case by (auto split: if_splits dest: startswith_length)
next
  case (Cls k)
  then show ?case by (auto split: if_splits list.splits)
next
  case (AtLeast n k)
  then show ?case by (auto dest: greedy_length)
next
  case (Seq r1 r2)
  from Seq.prems obtain g1 rest1 g2 where
    a: "(g1, rest1) \<in> set (rmatch r1 s)" and b: "(g2, rest) \<in> set (rmatch r2 rest1)"
    by auto
  from Seq.IH(1) [OF a] Seq.IH(2) [OF b] show ?case by simp
next
  case (Alt r1 r2)
  then show ?case by fastforce
next
  case (Group r)
  then show ?case by fastforce
qed

lemma rmatch_group_length:
  "(Some g, rest) \<in> set (rmatch r s) \<Longrightarrow> groups_at_least n r \<Longrightarrow> n \<le> length g"
proof (induction r arbitrary: g rest s)
  case (Seq r1 r2)
  from Seq.prems(1) obtain g1 rest1 g2 where
    a: "(g1, rest1) \<in> set (rmatch r1 s)" and b: "(g2, rest) \<in> set (rmatch r2 rest1)"
    and c: "Some g = (case g2 of None \<Rightarrow> g1 | Some x \<Rightarrow> Some x)"
    by auto
  show ?case
  proof (cases g2)
    case None
    with a c Seq.IH(1) Seq.prems(2) show ?thesis by auto
  next
    case (Some x)
    with b c Seq.IH(2) Seq.prems(2) show ?thesis by auto
  qed
next
  case (Group r)
  from Group.prems(1) obtain g' where
    a: "(g', rest) \<in> set (rmatch r s)" and b: "g = take (length s - length rest) s"
    by auto
  from rmatch_length [OF a] b Group.prems(2) show ?case by simp
qed auto

lemma re_search_group_length:
  "re_search r s = Some (Some g) \<Longrightarrow> groups_at_least n r \<Longrightarrow> n \<le> length g"
proof (induction s)
  case Nil
  then obtain rest ms where "rmatch r [] = (Some g, rest) # ms"
    by (auto split: list.splits)
  then have "(Some g, rest) \<in> set (rmatch r [])" by simp
  then show ?case using Nil.prems(2) by (rule rmatch_group_length)
next
  case (Cons c cs)
  show ?case
  proof (cases "rmatch r (c # cs)")
    case Nil
    with Cons show ?thesis by simp
  next
    case (Cons m ms)
    with Cons.prems(1) obtain rest where "rmatch r (c # cs) = (Some g, rest) # ms"
      by (cases m) auto
    then have "(Some g, rest) \<in> set (rmatch r (c # cs))" by simp
    then show ?thesis using Cons.prems(2) by (rule rmatch_group_length)
  qed
qed

lemma speaker_loop_length:
  "speaker_loop ps text = Some sp \<Longrightarrow> \<forall>p\<in>set ps. groups_at_least n p \<Longrightarrow> n \<le> length sp"
  by (induction ps) (auto split: option.splits dest: re_search_group_length)

lemma speaker_patterns_groups: "\<forall>p\<in>set speaker_patterns. groups_at_least 5 p"
  by (simp add: speaker_patterns_def two_names_def)

lemma quote_pattern_groups: "groups_at_least 20 quote_pattern"
  by (simp add: quote_pattern_def)

lemma known_figure_loop_result:
  "known_figure_loop table txt speaker = Some name \<Longrightarrow>
   speaker = Some name \<or> name \<in> snd ` set table"
  by (induction table) (auto split: if_splits)

lemma F1_DRIVERS_names_nonempty: "name \<in> snd ` set F1_DRIVERS \<Longrightarrow> name \<noteq> []"
  by (auto simp: F1_DRIVERS_def)

lemma detect_quote_Some:
  assumes "detect_quote text = (Some sp, Some q)"
  shows "sp \<noteq> [] \<and> 20 \<le> length q"
proof
  have "speaker_loop speaker_patterns text = Some sp \<or> sp \<in> snd ` set F1_DRIVERS"
    using assms
      known_figure_loop_result
        [of F1_DRIVERS "lower text" "speaker_loop speaker_patterns text" sp]
    by (auto simp: detect_quote_def Let_def split: if_splits)
  then show "sp \<noteq> []"
  proof
    assume "speaker_loop speaker_patterns text = Some sp"
    from speaker_loop_length [OF this speaker_patterns_groups] show ?thesis by auto
  next
    assume "sp \<in> snd ` set F1_DRIVERS"
    then show ?thesis by (rule F1_DRIVERS_names_nonempty)
  qed
  from assms have "re_search quote_pattern text = Some (Some q)"
    by (auto simp: detect_quote_def Let_def split: option.splits)
  from re_search_group_length [OF this quote_pattern_groups]
  show "20 \<le> length q" .
qed

subsection \<open>The quotation rule\<close>

lemma detect_quote_hamilton:
  "detect_quote hamilton_quote_text
   = (Some ''Lewis Hamilton'', Some ''We pushed the car to its limit,'')"
  by (simp add: detect_quote_def hamilton_quote_text_def quote_pattern_def speaker_patterns_def
      two_names_def dquote_def ascii_uppercase_def ascii_lowercase_def)

lemma route_visual_quote:
  assumes "detect_quote (segment_get seg ''text'' []) = (Some speaker, Some quote)"
  shows "route_visual seg use_veo3 =
           \<lparr>primary_type = QUOTE_OVERLAY, fallback_type = F1_IMAGE,
            search_queries = [speaker @ '' F1'', speaker @ '' portrait''],
            speaker_name = Some speaker, quote_text = Some quote, veo3_prompt = None,
            confidence = 95 / 100\<rparr>"
proof -
  from detect_quote_Some [OF assms] have "speaker \<noteq> []" "quote \<noteq> []" by auto
  with assms show ?thesis
    by (simp add: route_visual_def Let_def)
qed

text \<open>
  C1: whenever detect_quote finds a quote and a speaker in the segment's text, the quote has
  at least 20 characters and route_visual returns a QUOTE_OVERLAY decision with confidence
  0.95 that carries the speaker and the quote, whatever the context, the footage query, the
  other words of the text and the Veo3 flag are. The text
  \<^verbatim>\<open>"We pushed the car to its limit," said Lewis Hamilton.\<close> gives the quote
  \<^verbatim>\<open>We pushed the car to its limit,\<close> and the speaker \<^verbatim>\<open>Lewis Hamilton\<close>.
\<close>

theorem route_visual_quote_overlay:
  assumes "detect_quote (segment_get seg ''text'' []) = (Some speaker, Some quote)"
  shows "20 \<le> length quote
       \<and> primary_type (route_visual seg use_veo3) = QUOTE_OVERLAY
       \<and> confidence (route_visual seg use_veo3) = 95 / 100
       \<and> speaker_name (route_visual seg use_veo3) = Some speaker
       \<and> quote_text (route_visual seg use_veo3) = Some quote
       \<and> detect_quote hamilton_quote_text
           = (Some ''Lewis Hamilton'', Some ''We pushed the car to its limit,'')"
  using detect_quote_Some [OF assms] route_visual_quote [OF assms, of use_veo3]
    detect_quote_hamilton
  by simp

theorem route_visual_quote_overlay_witness:
  "detect_quote (segment_get [''text'' \<mapsto> hamilton_quote_text] ''text'' [])
     = (Some ''Lewis Hamilton'', Some ''We pushed the car to its limit,'')
   \<and> primary_type (route_visual [''text'' \<mapsto> hamilton_quote_text] True) = QUOTE_OVERLAY
   \<and> confidence (route_visual [''text'' \<mapsto> hamilton_quote_text] True) = 95 / 100"
proof -
  have h: "detect_quote (segment_get [''text'' \<mapsto> hamilton_quote_text] ''text'' [])
     = (Some ''Lewis Hamilton'', Some ''We pushed the car to its limit,'')"
    by (simp add: segment_get_def detect_quote_hamilton)
  from route_visual_quote_overlay [OF h, of True] h show ?thesis by simp
qed

text \<open>
  C5 as stated fails: for the quote of Lewis Hamilton the fallback of the decision is
  F1_IMAGE, not YOUTUBE_CLIP.
\<close>

theorem quote_fallback_counterexample:
  "detect_quote hamilton_quote_text
     = (Some ''Lewis Hamilton'', Some ''We pushed the car to its limit,'')
   \<and> fallback_type (route_visual [''text'' \<mapsto> hamilton_quote_text] True) = F1_IMAGE
   \<and> fallback_type (route_visual [''text'' \<mapsto> hamilton_quote_text] True) \<noteq> YOUTUBE_CLIP"
proof -
  have h: "detect_quote (segment_get [''text'' \<mapsto> hamilton_quote_text] ''text'' [])
     = (Some ''Lewis Hamilton'', Some ''We pushed the car to its limit,'')"
    by (simp add: segment_get_def detect_quote_hamilton)
  from route_visual_quote [OF h, of True] detect_quote_hamilton show ?thesis by simp
qed

text \<open>
  C5 (amended): whenever detect_quote finds a quote and a speaker in the segment's text, the
  fallback strategy of the routing decision is the static image (F1_IMAGE).
\<close>

theorem quote_fallback_is_image:
  assumes "detect_quote (segment_get seg ''text'' []) = (Some speaker, Some quote)"
  shows "fallback_type (route_visual seg use_veo3) = F1_IMAGE"
  using route_visual_quote [OF assms, of use_veo3] by simp

theorem quote_fallback_is_image_witness:
  "detect_quote (segment_get [''text'' \<mapsto> hamilton_quote_text,
                              ''context'' \<mapsto> ''race battle''] ''text'' [])
     = (Some ''Lewis Hamilton'', Some ''We pushed the car to its limit,'')
   \<and> fallback_type (route_visual [''text'' \<mapsto> hamilton_quote_text,
                                   ''context'' \<mapsto> ''race battle''] False) = F1_IMAGE"
proof -
  have h: "detect_quote (segment_get [''text'' \<mapsto> hamilton_quote_text,
                              ''context'' \<mapsto> ''race battle''] ''text'' [])
     = (Some ''Lewis Hamilton'', Some ''We pushed the car to its limit,'')"
    by (simp add: segment_get_def detect_quote_hamilton)
  from quote_fallback_is_image [OF h, of False] h show ?thesis by simp
qed

subsection \<open>Which quote is detected\<close>

declare spans_after.simps [simp del]

lemma greedy_filter_dquote:
  "filter (\<lambda>rest. startswith rest [dquote]) (greedy NotDQuote r)
   = (case dropWhile (\<lambda>c. c \<noteq> dquote) r of [] \<Rightarrow> [] | q # r' \<Rightarrow> [q # r'])"
  by (induction r) auto


lemma concat_map_if:
  "concat (map (\<lambda>x. if Q x then [f x] else []) xs) = map f (filter Q xs)"
  by (induction xs) auto

lemma map_if_single: "map f (if c then [x] else []) = (if c then [f x] else [])"
  by simp

lemma takeWhile_length_diff:
  assumes "dropWhile P r = q # r'"
  shows "length r - length (q # r') = length (takeWhile P r)"
    and "take (length r - length (q # r')) r = takeWhile P r"
proof -
  have "takeWhile P r @ dropWhile P r = r" by (rule takeWhile_dropWhile_id)
  then have r: "r = takeWhile P r @ q # r'" using assms by simp
  show l: "length r - length (q # r') = length (takeWhile P r)"
    by (subst r) simp
  have "take (length (takeWhile P r)) (takeWhile P r @ q # r') = takeWhile P r"
    by simp
  then show "take (length r - length (q # r')) r = takeWhile P r"
    using l r by simp
qed

lemma dropWhile_Cons_head: "dropWhile P r = q # r' \<Longrightarrow> \<not> P q"
  by (induction r) (auto split: if_splits)

lemma rmatch_group_atleast:
  "rmatch (Group (AtLeast n k)) r
   = map (\<lambda>rest. (Some (take (length r - length rest) r), rest))
       (filter (\<lambda>rest. n \<le> length r - length rest) (greedy k r))"
  by (simp add: comp_def)

lemma rmatch_quote_body:
  "rmatch (Seq (Group (AtLeast 20 NotDQuote)) (Lit [dquote])) r
   = (case dropWhile (\<lambda>c. c \<noteq> dquote) r of
        [] \<Rightarrow> []
      | q # r' \<Rightarrow> if 20 \<le> length (takeWhile (\<lambda>c. c \<noteq> dquote) r)
                  then [(Some (takeWhile (\<lambda>c. c \<noteq> dquote) r), r')] else [])"
proof -
  let ?P = "\<lambda>rest. 20 \<le> length r - length rest"
  let ?S = "\<lambda>rest. startswith rest [dquote]"
  let ?f = "\<lambda>rest. (Some (take (length r - length rest) r), drop 1 rest)"
  have "rmatch (Seq (Group (AtLeast 20 NotDQuote)) (Lit [dquote])) r
        = concat (map (\<lambda>rest. if ?S rest then [?f rest] else []) (filter ?P (greedy NotDQuote r)))"
    unfolding rmatch.simps(4) rmatch_group_atleast
    by (simp add: comp_def map_if_single cong: if_cong)
  also have "\<dots> = map ?f (filter ?S (filter ?P (greedy NotDQuote r)))"
    by (rule concat_map_if)
  also have "filter ?S (filter ?P (greedy NotDQuote r))
             = filter ?P (filter ?S (greedy NotDQuote r))"
    by (simp add: conj_commute)
  also have "map ?f (filter ?P (filter ?S (greedy NotDQuote r)))
     = (case dropWhile (\<lambda>c. c \<noteq> dquote) r of
        [] \<Rightarrow> []
      | q # r' \<Rightarrow> if 20 \<le> length (takeWhile (\<lambda>c. c \<noteq> dquote) r)
                  then [(Some (takeWhile (\<lambda>c. c \<noteq> dquote) r), r')] else [])"
  proof (cases "dropWhile (\<lambda>c. c \<noteq> dquote) r")
    case Nil
    then show ?thesis by (simp add: greedy_filter_dquote del: dropWhile_eq_Nil_conv)
  next
    case (Cons q r')
    have t: "take (length r - length (q # r')) r = takeWhile (\<lambda>c. c \<noteq> dquote) r"
      using Cons by (rule takeWhile_length_diff(2))
    have l: "length r - length (q # r') = length (takeWhile (\<lambda>c. c \<noteq> dquote) r)"
      using Cons by (rule takeWhile_length_diff(1))
    show ?thesis
      using t l by (simp add: greedy_filter_dquote Cons)
  qed
  finally show ?thesis .
qed

lemma rmatch_quote_pattern_Nil: "rmatch quote_pattern [] = []"
  by (simp add: quote_pattern_def)

lemma rmatch_quote_pattern_other: "c \<noteq> dquote \<Longrightarrow> rmatch quote_pattern (c # s) = []"
  by (simp add: quote_pattern_def)

lemma rmatch_quote_pattern_dquote:
  "rmatch quote_pattern (dquote # r)
   = (case dropWhile (\<lambda>c. c \<noteq> dquote) r of
        [] \<Rightarrow> []
      | q # r' \<Rightarrow> if 20 \<le> length (takeWhile (\<lambda>c. c \<noteq> dquote) r)
                  then [(Some (takeWhile (\<lambda>c. c \<noteq> dquote) r), r')] else [])"
proof -
  have "rmatch quote_pattern (dquote # r)
        = map (\<lambda>(g2, rest2). (case g2 of None \<Rightarrow> None | Some g \<Rightarrow> Some g, rest2))
            (rmatch (Seq (Group (AtLeast 20 NotDQuote)) (Lit [dquote])) r)"
    unfolding quote_pattern_def rmatch.simps(4) [of "Lit [dquote]"] by simp
  also have "\<dots> = rmatch (Seq (Group (AtLeast 20 NotDQuote)) (Lit [dquote])) r"
    unfolding rmatch_quote_body by (simp split: list.splits)
  finally show ?thesis unfolding rmatch_quote_body .
qed

lemma re_search_quote_skip:
  "dquote \<notin> set pre \<Longrightarrow> re_search quote_pattern (pre @ s) = re_search quote_pattern s"
  by (induction pre) (auto simp: rmatch_quote_pattern_other)

lemma re_search_quote_no_dquote:
  "dquote \<notin> set s \<Longrightarrow> re_search quote_pattern s = None"
  using re_search_quote_skip [of s "[]"] by (simp add: rmatch_quote_pattern_Nil)

lemma re_search_quote_dropWhile:
  "re_search quote_pattern s = re_search quote_pattern (dropWhile (\<lambda>c. c \<noteq> dquote) s)"
proof -
  have "dquote \<notin> set (takeWhile (\<lambda>c. c \<noteq> dquote) s)"
    by (auto dest: set_takeWhileD)
  from re_search_quote_skip [OF this, of "dropWhile (\<lambda>c. c \<noteq> dquote) s"]
  show ?thesis by simp
qed

lemma re_search_quote_after:
  "re_search quote_pattern (dquote # r)
   = map_option Some (find (\<lambda>q. 20 \<le> length q) (spans_after r))"
proof (induction r rule: spans_after.induct)
  case (1 r)
  show ?case
  proof (cases "dropWhile (\<lambda>c. c \<noteq> dquote) r")
    case Nil
    then have "dquote \<notin> set r" by (auto simp: dropWhile_eq_Nil_conv)
    then have "re_search quote_pattern r = None" by (rule re_search_quote_no_dquote)
    then show ?thesis
      using Nil
      by (simp add: rmatch_quote_pattern_dquote spans_after.simps [of r]
          del: dropWhile_eq_Nil_conv)
  next
    case (Cons q r')
    have q: "q = dquote" using dropWhile_Cons_head [OF Cons] by simp
    show ?thesis
    proof (cases "20 \<le> length (takeWhile (\<lambda>c. c \<noteq> dquote) r)")
      case True
      then show ?thesis
        using Cons by (simp add: rmatch_quote_pattern_dquote spans_after.simps [of r])
    next
      case False
      have "re_search quote_pattern (dquote # r) = re_search quote_pattern r"
        using Cons False by (simp add: rmatch_quote_pattern_dquote)
      also have "\<dots> = re_search quote_pattern (dquote # r')"
        using re_search_quote_dropWhile [of r] Cons q by simp
      also have "\<dots> = map_option Some (find (\<lambda>q. 20 \<le> length q) (spans_after r'))"
        using "1.IH" [OF Cons] .
      finally show ?thesis
        using Cons False by (simp add: spans_after.simps [of r])
    qed
  qed
qed

lemma re_search_quote_pattern:
  "re_search quote_pattern text
   = map_option Some (find (\<lambda>q. 20 \<le> length q) (quoted_spans text))"
proof (cases "dropWhile (\<lambda>c. c \<noteq> dquote) text")
  case Nil
  then have "dquote \<notin> set text" by (auto simp: dropWhile_eq_Nil_conv)
  then show ?thesis
    using Nil
    by (simp add: re_search_quote_no_dquote quoted_spans_def del: dropWhile_eq_Nil_conv)
next
  case (Cons q r)
  have q: "q = dquote" using dropWhile_Cons_head [OF Cons] by simp
  have "re_search quote_pattern text = re_search quote_pattern (dquote # r)"
    using re_search_quote_dropWhile [of "text"] Cons q by (simp only:)
  also have "\<dots> = map_option Some (find (\<lambda>q. 20 \<le> length q) (spans_after r))"
    by (rule re_search_quote_after)
  finally show ?thesis
    using Cons by (simp add: quoted_spans_def)
qed

lemma snd_detect_quote:
  "snd (detect_quote text)
   = (case re_search quote_pattern text of Some g \<Rightarrow> g | None \<Rightarrow> None)"
  by (simp add: detect_quote_def Let_def)

lemma detect_quote_two_quotes:
  "snd (detect_quote two_quotes_text) = Some ''The tyres were gone by lap ten,''"
  by (simp add: snd_detect_quote two_quotes_text_def quote_pattern_def dquote_def)

text \<open>
  C8 as stated fails: in a text with a quoted span of 31 characters followed by a quoted span
  of 51 characters, detect_quote returns the first span, not the longest.
\<close>

theorem detect_quote_longest_counterexample:
  "snd (detect_quote two_quotes_text) = Some ''The tyres were gone by lap ten,''
   \<and> contains two_quotes_text
         (dquote # ''We knew it would be a long afternoon for everybody,'' @ [dquote])
   \<and> length ''The tyres were gone by lap ten,''
       < length ''We knew it would be a long afternoon for everybody,''"
  using detect_quote_two_quotes by (simp add: two_quotes_text_def dquote_def)

text \<open>
  C8 (amended): the quote returned by detect_quote is the first (leftmost) run of at least 20
  characters other than \<^verbatim>\<open>"\<close> that lies between two consecutive \<^verbatim>\<open>"\<close> characters of the
  text, and there is no quote when no such run exists; later spans, longer or not, are never
  returned.
\<close>

theorem detect_quote_first_span:
  "snd (detect_quote text) = find (\<lambda>q. 20 \<le> length q) (quoted_spans text)"
  by (simp add: snd_detect_quote re_search_quote_pattern split: option.splits)

theorem detect_quote_first_span_witness:
  "find (\<lambda>q. 20 \<le> length q) (quoted_spans two_quotes_text)
   = Some ''The tyres were gone by lap ten,''"
  using detect_quote_first_span [of two_quotes_text] detect_quote_two_quotes by simp

subsection \<open>Search queries\<close>

lemma list_or_nonempty: "ys \<noteq> [] \<Longrightarrow> list_or xs ys \<noteq> []"
  by (simp add: list_or_def)

lemma search_queries_if:
  "search_queries (if c then a else b) = (if c then search_queries a else search_queries b)"
  by simp

lemma search_queries_Let: "search_queries (Let x f) = (let y = x in search_queries (f y))"
  by simp

lemma search_queries_case_prod:
  "search_queries (case p of (a, b) \<Rightarrow> f a b) = (case p of (a, b) \<Rightarrow> search_queries (f a b))"
  by (cases p) simp

lemma Let_nonempty: "(\<And>y. f y \<noteq> []) \<Longrightarrow> Let x f \<noteq> []"
  by simp

lemma case_prod_nonempty: "(\<And>a b. f a b \<noteq> []) \<Longrightarrow> (case p of (a, b) \<Rightarrow> f a b) \<noteq> []"
  by (cases p) simp

lemma if_nonempty: "a \<noteq> [] \<Longrightarrow> b \<noteq> [] \<Longrightarrow> (if c then a else b) \<noteq> []"
  by simp

text \<open>
  C10: for every segment and either value of the Veo3 flag, the decision returned by
  route_visual has a non-empty list of search queries.
\<close>

theorem route_visual_search_queries_nonempty:
  "search_queries (route_visual seg use_veo3) \<noteq> []"
  unfolding route_visual_def
  apply (simp only: search_queries_if search_queries_Let search_queries_case_prod
      VisualDecision.select_convs)
  apply (intro Let_nonempty case_prod_nonempty if_nonempty list_or_nonempty)
       apply simp_all
  done

theorem route_visual_search_queries_nonempty_witness:
  "search_queries (route_visual [''text'' \<mapsto> ''Ferrari and Hamilton''] True) \<noteq> []"
  using route_visual_search_queries_nonempty [of "[''text'' \<mapsto> ''Ferrari and Hamilton'']" True]
  by simp

section \<open>Properties of candidate scoring\<close>

lemmas lower_simps =
  lower_def lower_char_def ascii_uppercase_def ascii_lowercase_def
  latin1_uppercase_def latin1_lowercase_def

lemma good_loop_count:
  "good_loop kws t s = s + 8 / 100 * real (length (filter (contains t) kws))"
  by (induction kws arbitrary: s) (auto simp: algebra_simps)

lemma bad_loop_count:
  "bad_loop kws t s = s - 25 / 100 * real (length (filter (contains t) kws))"
  by (induction kws arbitrary: s) (simp_all add: field_simps)

lemma filter_one_more:
  assumes "distinct kws" "b \<in> set kws" "\<not> P b" "P' b"
    and "\<forall>k\<in>set kws. k \<noteq> b \<longrightarrow> P' k = P k"
  shows "length (filter P' kws) = Suc (length (filter P kws))"
  using assms
proof (induction kws)
  case Nil
  then show ?case by simp
next
  case (Cons k kws)
  show ?case
  proof (cases "k = b")
    case True
    then have "b \<notin> set kws" using Cons.prems(1) by simp
    then have "filter P' kws = filter P kws"
      using Cons.prems(5) by (intro filter_cong) auto
    then show ?thesis using True Cons.prems by simp
  next
    case False
    then have "length (filter P' kws) = Suc (length (filter P kws))"
      using Cons by auto
    moreover have "P' k = P k" using False Cons.prems(5) by simp
    ultimately show ?thesis by simp
  qed
qed

lemma filter_same:
  "\<forall>k\<in>set kws. P' k = P k \<Longrightarrow> filter P' kws = filter P kws"
  by (intro filter_cong) auto

lemma BAD_KEYWORDS_distinct: "distinct BAD_KEYWORDS"
  by (simp add: BAD_KEYWORDS_def)

lemma raw_score_one_more_bad:
  assumes "\<forall>g\<in>set GOOD_KEYWORDS. contains (lower title') g = contains (lower title) g"
    and "b \<in> set BAD_KEYWORDS" "\<not> contains (lower title) b" "contains (lower title') b"
    and "\<forall>k\<in>set BAD_KEYWORDS. k \<noteq> b \<longrightarrow> contains (lower title') k = contains (lower title) k"
  shows "raw_score title' channel = raw_score title channel - 25 / 100"
proof -
  have g: "filter (contains (lower title')) GOOD_KEYWORDS = filter (contains (lower title)) GOOD_KEYWORDS"
    using assms(1) by (rule filter_same)
  have b: "length (filter (contains (lower title')) BAD_KEYWORDS)
           = Suc (length (filter (contains (lower title)) BAD_KEYWORDS))"
    using BAD_KEYWORDS_distinct assms(2-5) by (rule filter_one_more)
  show ?thesis
    unfolding raw_score_def Let_def good_loop_count bad_loop_count g b
    by (simp add: algebra_simps)
qed


lemma raw_score_crash: "raw_score ''crash start finish podium'' ''F1'' = 107 / 100"
  unfolding raw_score_def Let_def
  by (simp add: OFFICIAL_CHANNELS_def GOOD_KEYWORDS_def BAD_KEYWORDS_def lower_simps)

lemma raw_score_crash_vlog: "raw_score ''crash start finish podium vlog'' ''F1'' = 82 / 100"
  unfolding raw_score_def Let_def
  by (simp add: OFFICIAL_CHANNELS_def GOOD_KEYWORDS_def BAD_KEYWORDS_def lower_simps)

text \<open>
  C6 as stated fails: on an official channel a title with four desirable keywords scores
  1.07 before clamping, hence 1; one more undesirable keyword (and nothing else new) brings
  the score to 0.82, a decrease of 0.18, with no clamping at 0 involved.
\<close>

theorem score_result_capped_counterexample:
  "filter (contains (lower ''crash start finish podium vlog'')) GOOD_KEYWORDS
     = filter (contains (lower ''crash start finish podium'')) GOOD_KEYWORDS
   \<and> filter (contains (lower ''crash start finish podium'')) BAD_KEYWORDS = []
   \<and> filter (contains (lower ''crash start finish podium vlog'')) BAD_KEYWORDS = [''vlog'']
   \<and> score_result ''crash start finish podium'' ''F1'' = 1
   \<and> score_result ''crash start finish podium vlog'' ''F1'' = 82 / 100"
  by (simp add: score_result_def raw_score_crash raw_score_crash_vlog)
     (simp add: GOOD_KEYWORDS_def BAD_KEYWORDS_def lower_simps)

text \<open>
  C6 (amended): for a fixed channel, when a title is changed so that exactly one more
  undesirable keyword matches and the desirable keywords that match are the same, the score
  before clamping drops by exactly 0.25 and the returned score is that value clamped to
  \<open>[0, 1]\<close>: it never increases; it is \<open>max(0, old score - 0.25)\<close> whenever the old
  unclamped score is at most 1, and strictly lower whenever the old unclamped score lies
  strictly between 0 and 1.25.
\<close>

theorem score_result_one_more_bad_keyword:
  assumes "\<forall>g\<in>set GOOD_KEYWORDS. contains (lower title') g = contains (lower title) g"
    and "b \<in> set BAD_KEYWORDS" "\<not> contains (lower title) b" "contains (lower title') b"
    and "\<forall>k\<in>set BAD_KEYWORDS. k \<noteq> b \<longrightarrow> contains (lower title') k = contains (lower title) k"
  shows "raw_score title' channel = raw_score title channel - 25 / 100
       \<and> score_result title' channel = max 0 (min 1 (raw_score title channel - 25 / 100))
       \<and> score_result title' channel \<le> score_result title channel
       \<and> (raw_score title channel \<le> 1 \<longrightarrow>
            score_result title' channel = max 0 (score_result title channel - 25 / 100))
       \<and> (0 < raw_score title channel \<and> raw_score title channel < 125 / 100 \<longrightarrow>
            score_result title' channel < score_result title channel)"
proof -
  have r: "raw_score title' channel = raw_score title channel - 25 / 100"
    using assms by (rule raw_score_one_more_bad)
  show ?thesis
    unfolding score_result_def r by (auto simp: max_def min_def)
qed

lemma crash_hyps:
  "\<forall>g\<in>set GOOD_KEYWORDS. contains (lower ''crash vlog'') g = contains (lower ''crash'') g"
  "''vlog'' \<in> set BAD_KEYWORDS" "\<not> contains (lower ''crash'') ''vlog''"
  "contains (lower ''crash vlog'') ''vlog''"
  "\<forall>k\<in>set BAD_KEYWORDS. k \<noteq> ''vlog'' \<longrightarrow> contains (lower ''crash vlog'') k = contains (lower ''crash'') k"
  by (simp_all add: GOOD_KEYWORDS_def BAD_KEYWORDS_def lower_simps)

lemma raw_score_crash_only: "raw_score ''crash'' ''F1'' = 83 / 100"
  unfolding raw_score_def Let_def
  by (simp add: OFFICIAL_CHANNELS_def GOOD_KEYWORDS_def BAD_KEYWORDS_def lower_simps)

theorem score_result_one_more_bad_keyword_witness:
  "raw_score ''crash'' ''F1'' = 83 / 100
   \<and> raw_score ''crash vlog'' ''F1'' = 58 / 100
   \<and> score_result ''crash vlog'' ''F1'' = 58 / 100
   \<and> score_result ''crash vlog'' ''F1'' < score_result ''crash'' ''F1''"
  using score_result_one_more_bad_keyword [OF crash_hyps, of "''F1''"] raw_score_crash_only
  by (simp add: score_result_def)

section \<open>Properties of the search backends\<close>

subsection \<open>Rate limiting\<close>


declare str_nat.simps [simp del]

lemma str_int_3: "str_int 3 = ''3''"
  by (simp add: str_int_def str_nat.simps [of 3])

lemma strip_key: "strip ''key'' = ''key''"
  by (simp add: strip_def isspace_def)



lemma backend_request:
  assumes "image_cache st (prefix @ ''_'' @ query @ ''_'' @ str_int n) = None"
    and "truthy (get_api_key (creds_file env) (env_key env))"
  shows "requests (search_images_backend prefix query n env st) = 1"
    and "slept (search_images_backend prefix query n env st)
         = max 0 (API_RATE_LIMIT_DELAY - (clock env - last_api_call st))"
    and "last_api_call (state (search_images_backend prefix query n env st))
         = clock env + slept (search_images_backend prefix query n env st)"
  using assms
  by (auto simp: search_images_backend_def Let_def max_def split: http_response.splits prod.splits bool.splits)

lemma backend_no_request:
  assumes "image_cache st (prefix @ ''_'' @ query @ ''_'' @ str_int n) \<noteq> None
           \<or> \<not> truthy (get_api_key (creds_file env) (env_key env))"
  shows "requests (search_images_backend prefix query n env st) = 0"
    and "slept (search_images_backend prefix query n env st) = 0"
    and "state (search_images_backend prefix query n env st) = st"
  using assms
  by (auto simp: search_images_backend_def Let_def split: option.splits)

lemma pexels_then_state:
  "last_api_call (state (search_images_pexels ''f1'' 3 env_pexels initial_state)) = 100"
  "image_cache (state (search_images_pexels ''f1'' 3 env_pexels initial_state)) ''unsplash_f1_3'' = None"
  unfolding search_images_pexels_def
  by (simp_all add: search_images_backend_def Let_def initial_state_def env_pexels_def
      get_api_key_def strip_key str_int_3 API_RATE_LIMIT_DELAY_def)

text \<open>
  C4 as stated fails: an Unsplash request at time 100.1 that follows a Pexels request at time
  100 sleeps 0.4 seconds although no Unsplash request was made before; the same Unsplash
  call without the Pexels call does not sleep.
\<close>

theorem rate_limit_other_backend_counterexample:
  "slept (search_images_unsplash ''f1'' 3 env_unsplash initial_state) = 0
   \<and> slept (search_images_unsplash ''f1'' 3 env_unsplash
             (state (search_images_pexels ''f1'' 3 env_pexels initial_state))) = 4 / 10"
proof -
  have k: "truthy (get_api_key (creds_file env_unsplash) (env_key env_unsplash))"
    by (simp add: env_unsplash_def get_api_key_def strip_key)
  have c0: "image_cache initial_state (''unsplash'' @ ''_'' @ ''f1'' @ ''_'' @ str_int 3) = None"
    by (simp add: initial_state_def)
  have c1: "image_cache (state (search_images_pexels ''f1'' 3 env_pexels initial_state))
              (''unsplash'' @ ''_'' @ ''f1'' @ ''_'' @ str_int 3) = None"
    using pexels_then_state(2) by (simp add: str_int_3)
  show ?thesis
    unfolding search_images_unsplash_def
    using backend_request(2) [OF c0 k] backend_request(2) [OF c1 k] pexels_then_state(1)
    by (simp add: API_RATE_LIMIT_DELAY_def env_unsplash_def initial_state_def)
qed


text \<open>
  C4 (amended): the minimum interval between requests is enforced with one timestamp shared
  by the Pexels and the Unsplash backend. A call to either backend that issues a request
  first sleeps \<open>max(0, 0.5 - (now - last))\<close>, where \<open>last\<close> is the time of the latest
  request of either backend, and then stores the time of its own request in the same
  timestamp, at least 0.5 seconds after \<open>last\<close>; a call that issues no request (cache hit
  or missing key) neither sleeps nor changes the timestamp.
\<close>

theorem rate_limit_shared_timestamp:
  "(let out = search_images_pexels query n env st
    in (requests out = 0 \<and> slept out = 0 \<and> state out = st)
       \<or> (requests out = 1
           \<and> slept out = max 0 (API_RATE_LIMIT_DELAY - (clock env - last_api_call st))
           \<and> last_api_call (state out) = clock env + slept out
           \<and> last_api_call st + API_RATE_LIMIT_DELAY \<le> last_api_call (state out)))
   \<and> (let out = search_images_unsplash query n env st
    in (requests out = 0 \<and> slept out = 0 \<and> state out = st)
       \<or> (requests out = 1
           \<and> slept out = max 0 (API_RATE_LIMIT_DELAY - (clock env - last_api_call st))
           \<and> last_api_call (state out) = clock env + slept out
           \<and> last_api_call st + API_RATE_LIMIT_DELAY \<le> last_api_call (state out)))"
proof -
  have step: "(let out = search_images_backend prefix query n env st
    in (requests out = 0 \<and> slept out = 0 \<and> state out = st)
       \<or> (requests out = 1
           \<and> slept out = max 0 (API_RATE_LIMIT_DELAY - (clock env - last_api_call st))
           \<and> last_api_call (state out) = clock env + slept out
           \<and> last_api_call st + API_RATE_LIMIT_DELAY \<le> last_api_call (state out)))"
    for prefix
  proof (cases "image_cache st (prefix @ ''_'' @ query @ ''_'' @ str_int n) = None
                \<and> truthy (get_api_key (creds_file env) (env_key env))")
    case True
    then have c: "image_cache st (prefix @ ''_'' @ query @ ''_'' @ str_int n) = None"
      and k: "truthy (get_api_key (creds_file env) (env_key env))" by auto
    show ?thesis
      using backend_request [OF c k] by (simp add: Let_def max_def)
  next
    case False
    then have "image_cache st (prefix @ ''_'' @ query @ ''_'' @ str_int n) \<noteq> None
           \<or> \<not> truthy (get_api_key (creds_file env) (env_key env))" by auto
    from backend_no_request [OF this] show ?thesis by (simp add: Let_def)
  qed
  show ?thesis
    unfolding search_images_pexels_def search_images_unsplash_def
    using step [of "''pexels''"] step [of "''unsplash''"] by simp
qed

theorem rate_limit_shared_timestamp_witness:
  "requests (search_images_unsplash ''f1'' 3 env_unsplash
             (state (search_images_pexels ''f1'' 3 env_pexels initial_state))) = 1
   \<and> slept (search_images_unsplash ''f1'' 3 env_unsplash
             (state (search_images_pexels ''f1'' 3 env_pexels initial_state))) = 4 / 10
   \<and> last_api_call (state (search_images_unsplash ''f1'' 3 env_unsplash
             (state (search_images_pexels ''f1'' 3 env_pexels initial_state)))) = 1005 / 10"
proof -
  have k: "truthy (get_api_key (creds_file env_unsplash) (env_key env_unsplash))"
    by (simp add: env_unsplash_def get_api_key_def strip_key)
  have c1: "image_cache (state (search_images_pexels ''f1'' 3 env_pexels initial_state))
              (''unsplash'' @ ''_'' @ ''f1'' @ ''_'' @ str_int 3) = None"
    using pexels_then_state(2) by (simp add: str_int_3)
  have r: "requests (search_images_unsplash ''f1'' 3 env_unsplash
             (state (search_images_pexels ''f1'' 3 env_pexels initial_state))) = 1"
    unfolding search_images_unsplash_def using backend_request(1) [OF c1 k] .
  from rate_limit_shared_timestamp [of "''f1''" 3 env_unsplash "state (search_images_pexels ''f1'' 3 env_pexels initial_state)"]
    r pexels_then_state(1)
  show ?thesis
    by (simp add: Let_def API_RATE_LIMIT_DELAY_def env_unsplash_def)
qed

subsection \<open>Failures\<close>




lemma collect_urls_takeWhile:
  "collect_urls entries acc
   = (acc @ map the (takeWhile (\<lambda>e. e \<noteq> None) entries), list_all (\<lambda>e. e \<noteq> None) entries)"
  by (induction entries acc rule: collect_urls.induct) auto

lemma backend_no_key:
  assumes "image_cache st (prefix @ ''_'' @ query @ ''_'' @ str_int n) = None"
    and "\<not> truthy (get_api_key (creds_file env) (env_key env))"
  shows "search_images_backend prefix query n env st
         = \<lparr>urls = [], requests = 0, slept = 0, state = st\<rparr>"
  using assms by (simp add: search_images_backend_def Let_def)

lemma backend_failure:
  assumes "image_cache st (prefix @ ''_'' @ query @ ''_'' @ str_int n) = None"
    and "truthy (get_api_key (creds_file env) (env_key env))"
    and "response env = Failure"
  shows "urls (search_images_backend prefix query n env st) = []"
  using assms by (simp add: search_images_backend_def Let_def)

lemma backend_photos:
  assumes "image_cache st (prefix @ ''_'' @ query @ ''_'' @ str_int n) = None"
    and "truthy (get_api_key (creds_file env) (env_key env))"
    and "response env = Photos entries"
  shows "urls (search_images_backend prefix query n env st)
         = map the (takeWhile (\<lambda>e. e \<noteq> None) entries)"
  using assms
  by (simp add: search_images_backend_def Let_def collect_urls_takeWhile split: bool.splits)

lemma map_filter_all_None: "\<forall>x\<in>set xs. f x = None \<Longrightarrow> List.map_filter f xs = []"
  by (induction xs) (auto simp: List.map_filter_simps)

lemma youtube_no_separator:
  assumes "\<forall>line\<in>set (py_split [CHR 0x0A] [] (strip stdout)). \<not> contains line ''|||''"
  shows "search_youtube_enhanced (Inr stdout) = Inr []"
proof -
  have "\<forall>line\<in>set (py_split [CHR 0x0A] [] (strip stdout)). parse_line line = None"
    using assms by (simp add: parse_line_def)
  then have "List.map_filter parse_line (py_split [CHR 0x0A] [] (strip stdout)) = []"
    by (rule map_filter_all_None)
  then show ?thesis by (simp add: search_youtube_enhanced_def)
qed

lemma youtube_empty: "search_youtube_enhanced (Inr []) = Inr []"
  by (rule youtube_no_separator) (simp add: strip_def)

lemma youtube_exception_propagates: "search_youtube_enhanced (Inl e) = Inl e"
  by (simp add: search_youtube_enhanced_def)

lemma pexels_partial_response:
  "urls (search_images_pexels ''f1'' 3 env_partial initial_state)
     = [''https://images.example/1.jpg'']
   \<and> requests (search_images_pexels ''f1'' 3 env_partial initial_state) = 1
   \<and> image_cache (state (search_images_pexels ''f1'' 3 env_partial initial_state))
         ''pexels_f1_3'' = None"
  unfolding search_images_pexels_def
  by (simp add: search_images_backend_def Let_def initial_state_def env_partial_def
      get_api_key_def strip_key str_int_3 API_RATE_LIMIT_DELAY_def)

lemma pexels_missing_credentials:
  "search_images_pexels ''f1'' 3 env_no_key initial_state
   = \<lparr>urls = [], requests = 0, slept = 0, state = initial_state\<rparr>"
  unfolding search_images_pexels_def
  by (rule backend_no_key) (simp_all add: initial_state_def env_no_key_def get_api_key_def)

text \<open>
  C9: every backend search is to return an empty list on failure and never to raise. The
  code departs from this at two inputs. When \<^verbatim>\<open>subprocess.run\<close> raises (yt-dlp is not
  installed), search_youtube_enhanced, which has no exception handler, passes the exception
  on to its caller. When the second photo of a Pexels response is malformed,
  search_images_pexels returns the URL of the first photo instead of an empty list. With
  missing credentials the search issues no request and returns the empty list.
\<close>

theorem search_failure_divergence:
  "search_youtube_enhanced (Inl FileNotFoundError) = Inl FileNotFoundError
   \<and> urls (search_images_pexels ''f1'' 3 env_partial initial_state)
       = [''https://images.example/1.jpg'']
   \<and> search_images_pexels ''f1'' 3 env_no_key initial_state
       = \<lparr>urls = [], requests = 0, slept = 0, state = initial_state\<rparr>"
  using youtube_exception_propagates [of FileNotFoundError] pexels_partial_response
    pexels_missing_credentials
  by simp

end
